theory Spec2Isabelle
  imports Complex_Main "HOL-Library.AList" "HOL-Library.Multiset"
begin

section \<open>The telemetry report of the Context Gateway: analysis functions\<close>

text \<open>
  This theory embeds the analysis functions of \<^verbatim>\<open>docs/quickstart/telemetry-report.py\<close>:
  \<^verbatim>\<open>get_price\<close>, \<^verbatim>\<open>analyze_tokens\<close>, \<^verbatim>\<open>analyze_sizes\<close> and \<^verbatim>\<open>analyze_daily\<close>.

  Conventions of the embedding.
  \<^item> A log entry is a Python \<^verbatim>\<open>dict\<close> read from one JSON line. It is a record whose fields
    are options: \<open>None\<close> is an absent key, and \<^verbatim>\<open>d.get(k, default)\<close> is \<open>get\<close> below. A key
    that is present carries a value of the type the program computes with (a string, a
    boolean, an integer).
  \<^item> Python's \<^verbatim>\<open>int\<close> is \<open>int\<close>. Python's \<^verbatim>\<open>float\<close> is \<open>rat\<close>: the quotient \<^verbatim>\<open>comp / orig\<close>,
    the constant \<^verbatim>\<open>0.9\<close> and the prices are exact rational numbers, so the rounding of
    binary floating point is not part of the model.
  \<^item> A \<^verbatim>\<open>dict\<close> built by the program is an association list in insertion order, each key
    once; \<open>AList.update\<close> overwrites in place or appends, as assignment to a key does.
  \<^item> The module-level table \<^verbatim>\<open>LIVE_PRICES\<close> is fetched from the network when the module
    is loaded; the functions that read it take it as their first argument.
  \<^item> A string is a list of characters. The texts the functions look into (the path, the
    status, the keys of the price table, the first 19 characters of a timestamp) are ASCII,
    where a character of Python is one \<open>char\<close>.
\<close>

subsection \<open>Reading a dictionary\<close>

definition get :: "'a option \<Rightarrow> 'a \<Rightarrow> 'a" where
  "get field dflt = (case field of Some v \<Rightarrow> v | None \<Rightarrow> dflt)"

text \<open>Truth value of \<^verbatim>\<open>d.get(k)\<close> for a boolean field: an absent key gives \<^verbatim>\<open>None\<close>, which is false.\<close>

definition truthy :: "bool option \<Rightarrow> bool" where
  "truthy field = (field = Some True)"

subsection \<open>Pricing\<close>

type_synonym price_table = "(string \<times> rat) list"

definition FALLBACK_PRICES :: price_table where
  "FALLBACK_PRICES = [(''opus'', 15), (''sonnet'', 3), (''haiku'', 1)]"

text \<open>\<^verbatim>\<open>key in model\<close> on strings: \<open>key\<close> occurs in \<open>model\<close> as a contiguous run.\<close>

fun starts_with :: "string \<Rightarrow> string \<Rightarrow> bool" where
  "starts_with s [] = True"
| "starts_with [] (k # ks) = False"
| "starts_with (c # cs) (k # ks) = (c = k \<and> starts_with cs ks)"

fun str_in :: "string \<Rightarrow> string \<Rightarrow> bool" where
  "str_in key [] = (key = [])"
| "str_in key (c # cs) = (starts_with (c # cs) key \<or> str_in key cs)"

text \<open>The loop \<^verbatim>\<open>for key, price in FALLBACK_PRICES.items()\<close> with its early return.\<close>

fun scan_prices :: "price_table \<Rightarrow> string \<Rightarrow> rat option" where
  "scan_prices [] model = None"
| "scan_prices ((key, price) # rest) model =
     (if str_in key model then Some price else scan_prices rest model)"

definition get_price :: "price_table \<Rightarrow> string \<Rightarrow> rat" where
  "get_price LIVE_PRICES model =
     (case (if LIVE_PRICES \<noteq> [] then map_of LIVE_PRICES model else None) of
        Some price \<Rightarrow> price
      | None \<Rightarrow>
          (case scan_prices FALLBACK_PRICES model of
             Some price \<Rightarrow> price
           | None \<Rightarrow> 3))"

text \<open>
  The resolution order in the words of the specification: an exact key of a non-empty live
  table, else the first of opus, sonnet, haiku that is a substring, else 3.
\<close>

definition is_substring :: "string \<Rightarrow> string \<Rightarrow> bool" where
  "is_substring key s = (\<exists>before after. s = before @ key @ after)"

definition price_spec :: "price_table \<Rightarrow> string \<Rightarrow> rat" where
  "price_spec live model =
     (if live \<noteq> [] \<and> model \<in> fst ` set live then the (map_of live model)
      else if is_substring ''opus'' model then 15
      else if is_substring ''sonnet'' model then 3
      else if is_substring ''haiku'' model then 1
      else 3)"

subsection \<open>Log entries\<close>

text \<open>One entry of the request log (\<^verbatim>\<open>telemetry.jsonl\<close>).\<close>

record event_record =
  path :: "string option"
  model :: "string option"
  compression_used :: "bool option"
  original_tokens :: "int option"
  tokens_saved :: "int option"
  shadow_refs_created :: "int option"
  expand_calls_found :: "int option"
  timestamp :: "string option"

text \<open>One entry of the compression log (\<^verbatim>\<open>compression.jsonl\<close>).\<close>

record compression_record =
  tool_name :: "string option"
  status :: "string option"
  original_bytes :: "int option"
  compressed_bytes :: "int option"
  min_threshold :: "int option"

subsection \<open>Token savings\<close>

text \<open>
  The dataclasses. Field \<open>count'\<close> is \<^verbatim>\<open>ModelStats.count\<close>. The attributes that
  \<^verbatim>\<open>analyze_tokens\<close> assigns beyond the four declared fields of \<^verbatim>\<open>TokenStats\<close> are fields too.
\<close>

record ModelStats =
  name :: string
  count' :: int
  orig_tokens :: int
  saved_tokens :: int
  money_saved :: rat


definition is_message :: "event_record \<Rightarrow> bool" where
  "is_message e = (path e = Some ''/v1/messages'')"






subsection \<open>Sizes and the threshold sweep\<close>

text \<open>
  Field \<open>name'\<close> is \<^verbatim>\<open>ToolStats.name\<close> and \<open>ratio'\<close> is \<^verbatim>\<open>ThresholdResult.ratio\<close>; a
  \<open>sample\<close> is the dictionary with the keys \<^verbatim>\<open>orig\<close>, \<^verbatim>\<open>comp\<close> and \<^verbatim>\<open>ratio\<close> of the threshold
  analysis.
\<close>

record ToolStats =
  name' :: string
  total :: int
  compressed :: int
  orig_bytes :: int
  saved_bytes :: int

record sample =
  orig :: int
  comp :: int
  ratio :: rat

record ThresholdResult =
  threshold :: int
  calls :: int
  ratio' :: rat
  saved :: int
  wasted :: int
  roi :: rat

record SizeStats =
  all_sizes :: "int list"
  compressed_sizes :: "int list"
  passthrough_sizes :: "int list"
  ratios :: "rat list"
  tools :: "(string \<times> ToolStats) list"
  status_counts :: "(string \<times> int) list"
  current_threshold :: int
  thresholds :: "ThresholdResult list"
  sweet_spot :: int
  compression_cost :: rat

text \<open>\<^verbatim>\<open>SizeStats()\<close>: every field at its default.\<close>

definition new_SizeStats :: SizeStats where
  "new_SizeStats =
     \<lparr>all_sizes = [], compressed_sizes = [], passthrough_sizes = [], ratios = [],
      tools = [], status_counts = [], current_threshold = 0, thresholds = [],
      sweet_spot = 0, compression_cost = 0\<rparr>"

text \<open>
  One round of the first loop of \<^verbatim>\<open>analyze_sizes\<close>. The quotient \<^verbatim>\<open>comp / orig\<close> is taken
  under the test \<^verbatim>\<open>orig > 0\<close>.
\<close>

definition record_size :: "SizeStats \<Rightarrow> compression_record \<Rightarrow> SizeStats" where
  "record_size stats rec =
     (let orig = get (original_bytes rec) 0 in
      if orig = 0 then stats
      else
        let st = get (status rec) [];
            tool = get (tool_name rec) ''unknown'';
            stats1 = stats
              \<lparr>all_sizes := all_sizes stats @ [orig],
               status_counts :=
                 AList.update st (get (map_of (status_counts stats) st) 0 + 1) (status_counts stats)\<rparr>;
            t = (case map_of (tools stats1) tool of
                   Some t \<Rightarrow> t
                 | None \<Rightarrow> \<lparr>name' = tool, total = 0, compressed = 0, orig_bytes = 0, saved_bytes = 0\<rparr>);
            t1 = t\<lparr>total := total t + 1, orig_bytes := orig_bytes t + orig\<rparr>
        in
          if st = ''compressed'' then
            let comp = get (compressed_bytes rec) orig;
                t2 = t1\<lparr>compressed := compressed t1 + 1,
                        saved_bytes := saved_bytes t1 + (orig - comp)\<rparr>
            in stats1
              \<lparr>compressed_sizes := compressed_sizes stats1 @ [orig],
               tools := AList.update tool t2 (tools stats1),
               ratios := (if orig > 0 then ratios stats1 @ [of_int comp / of_int orig]
                          else ratios stats1)\<rparr>
          else stats1
              \<lparr>passthrough_sizes := passthrough_sizes stats1 @ [orig],
               tools := AList.update tool t1 (tools stats1)\<rparr>)"

text \<open>
  The loop \<^verbatim>\<open>for rec in reversed(entries)\<close> with its \<^verbatim>\<open>break\<close>; the first argument is the
  reversed list, the second the value the field has when no entry reports a threshold.
\<close>

fun scan_threshold :: "compression_record list \<Rightarrow> int \<Rightarrow> int" where
  "scan_threshold [] cur = cur"
| "scan_threshold (rec # rest) cur =
     (let t = get (min_threshold rec) 0 in if t > 0 then t else scan_threshold rest cur)"

text \<open>
  The list \<^verbatim>\<open>compressed_data\<close>. The quotient is taken only where \<^verbatim>\<open>orig == 0\<close> has been
  ruled out by the \<^verbatim>\<open>continue\<close>.
\<close>

fun compressed_data :: "compression_record list \<Rightarrow> sample list" where
  "compressed_data [] = []"
| "compressed_data (rec # rest) =
     (let orig = get (original_bytes rec) 0 in
      if orig = 0 \<or> status rec \<noteq> Some ''compressed'' then compressed_data rest
      else
        let comp = get (compressed_bytes rec) orig
        in \<lparr>orig = orig, comp = comp, ratio = of_int comp / of_int orig\<rparr> # compressed_data rest)"

definition CANDIDATES :: "int list" where
  "CANDIDATES = [256, 512, 768, 1024, 1536, 2048, 3072, 4096]"

text \<open>\<^verbatim>\<open>statistics.mean\<close>, called on a non-empty list only (after \<^verbatim>\<open>if not eligible: continue\<close>).\<close>

definition mean :: "rat list \<Rightarrow> rat" where
  "mean xs = sum_list xs / of_nat (length xs)"

definition HAIKU :: string where
  "HAIKU = ''claude-haiku-4-5-20251001''"

text \<open>
  The body of the loop over the candidate thresholds, for one threshold: \<open>None\<close> is the
  \<^verbatim>\<open>continue\<close> on an empty eligible list, otherwise the \<^verbatim>\<open>ThresholdResult\<close> and \<^verbatim>\<open>api_input\<close>.
\<close>

definition eval_threshold :: "price_table \<Rightarrow> sample list \<Rightarrow> int \<Rightarrow> (ThresholdResult \<times> int) option" where
  "eval_threshold LIVE_PRICES cd T =
     (let eligible = filter (\<lambda>c. orig c \<ge> T) cd in
      if eligible = [] then None
      else
        let wasted_n = sum_list (map (\<lambda>c. 1) (filter (\<lambda>c. ratio c \<ge> 9 / 10) eligible));
            saved_n = sum_list (map (\<lambda>c. orig c - comp c) (filter (\<lambda>c. ratio c < 9 / 10) eligible));
            avg_ratio = mean (map ratio eligible);
            api_input = sum_list (map orig eligible);
            api_cost = (of_int api_input / 4) / 1000000 * get_price LIVE_PRICES HAIKU;
            main_savings = (of_int saved_n / 4) / 1000000 * 15;
            roi_n = (if api_cost > 0 then main_savings / api_cost else 0)
        in Some (\<lparr>threshold = T, calls = int (length eligible), ratio' = avg_ratio,
                   saved = saved_n, wasted = wasted_n, roi = roi_n\<rparr>, api_input))"

text \<open>
  The loop itself; its state is \<^verbatim>\<open>stats.thresholds\<close> and \<^verbatim>\<open>total_comp_input\<close>, and \<open>cur\<close> is
  \<^verbatim>\<open>stats.current_threshold\<close>.
\<close>

fun sweep :: "price_table \<Rightarrow> sample list \<Rightarrow> int \<Rightarrow> int list \<Rightarrow> ThresholdResult list \<times> int
    \<Rightarrow> ThresholdResult list \<times> int" where
  "sweep LIVE_PRICES cd cur [] state = state"
| "sweep LIVE_PRICES cd cur (T # Ts) (results, total_comp_input) =
     (case eval_threshold LIVE_PRICES cd T of
        None \<Rightarrow> sweep LIVE_PRICES cd cur Ts (results, total_comp_input)
      | Some (r, api_input) \<Rightarrow>
          sweep LIVE_PRICES cd cur Ts
            (results @ [r], if T = cur then api_input else total_comp_input))"

text \<open>The loop \<^verbatim>\<open>for r in stats.thresholds\<close> with its \<^verbatim>\<open>break\<close>.\<close>

fun find_sweet_spot :: "ThresholdResult list \<Rightarrow> int \<Rightarrow> int" where
  "find_sweet_spot [] spot = spot"
| "find_sweet_spot (r # rs) spot = (if wasted r = 0 then threshold r else find_sweet_spot rs spot)"

definition threshold_analysis :: "price_table \<Rightarrow> sample list \<Rightarrow> SizeStats \<Rightarrow> SizeStats" where
  "threshold_analysis LIVE_PRICES cd stats =
     (if length cd \<ge> 10 then
        (case sweep LIVE_PRICES cd (current_threshold stats) CANDIDATES (thresholds stats, 0) of
           (results, total_comp_input) \<Rightarrow>
             let stats1 = stats\<lparr>thresholds := results\<rparr>;
                 stats2 = stats1\<lparr>sweet_spot := find_sweet_spot (thresholds stats1) (sweet_spot stats1)\<rparr>
             in if total_comp_input \<noteq> 0
                then stats2\<lparr>compression_cost :=
                        (of_int total_comp_input / 4) / 1000000 * get_price LIVE_PRICES HAIKU\<rparr>
                else stats2)
      else stats)"

definition analyze_sizes :: "price_table \<Rightarrow> compression_record list \<Rightarrow> SizeStats option" where
  "analyze_sizes LIVE_PRICES entries =
     (if entries = [] then None
      else
        let stats = fold (\<lambda>rec stats. record_size stats rec) entries new_SizeStats in
        if all_sizes stats = [] then None
        else
          let stats1 = stats\<lparr>current_threshold := scan_threshold (rev entries) (current_threshold stats)\<rparr>
          in Some (threshold_analysis LIVE_PRICES (compressed_data entries) stats1))"

text \<open>
  The results the sweep appends, read off the loop: one per candidate whose eligible list is
  not empty, in the order of the candidates (lemma \<open>fst_sweep\<close> relates it to \<open>sweep\<close>).
\<close>

definition results_of :: "price_table \<Rightarrow> sample list \<Rightarrow> ThresholdResult list" where
  "results_of live cd = List.map_filter (\<lambda>T. map_option fst (eval_threshold live cd T)) CANDIDATES"

subsection \<open>Daily usage\<close>

text \<open>
  The fields of \<^verbatim>\<open>DailyStats\<close> that share a name with an attribute of \<^verbatim>\<open>TokenStats\<close> carry a
  prime; \<^verbatim>\<open>analyze_daily\<close> leaves them at their defaults.
\<close>

record DailyStats =
  active_days :: int
  avg_tokens_per_day :: rat
  min_tokens_per_day :: int
  max_tokens_per_day :: int
  median_tokens_per_day :: rat
  daily_values :: "int list"
  total_saved_tokens' :: int
  total_money_saved' :: rat
  total_shadows' :: int
  total_expands' :: int
  models' :: "(string \<times> ModelStats) list"

datatype py_error = ValueError

text \<open>
  The standard library's \<^verbatim>\<open>str(datetime.fromisoformat(s).date())\<close> is the parameter \<open>iso_date\<close>
  of the functions below: \<open>Some\<close> of the calendar date's text, or \<open>None\<close> where
  \<^verbatim>\<open>fromisoformat\<close> raises \<^verbatim>\<open>ValueError\<close>.

  The loop \<^verbatim>\<open>for m in msgs\<close> that fills \<^verbatim>\<open>daily_tokens\<close>, a \<^verbatim>\<open>defaultdict(int)\<close>: an entry
  without a timestamp is passed over, a timestamp that does not parse ends the run with the
  exception, and otherwise the day's sum grows by the entry's tokens.
\<close>

fun group_by_date :: "(string \<Rightarrow> string option) \<Rightarrow> event_record list \<Rightarrow> (string \<times> int) list
    \<Rightarrow> py_error + (string \<times> int) list" where
  "group_by_date iso_date [] daily_tokens = Inr daily_tokens"
| "group_by_date iso_date (m # ms) daily_tokens =
     (let ts = get (timestamp m) [] in
      if ts = [] then group_by_date iso_date ms daily_tokens
      else
        (case iso_date (take 19 ts) of
           None \<Rightarrow> Inl ValueError
         | Some date \<Rightarrow>
             group_by_date iso_date ms
               (AList.update date
                  (get (map_of daily_tokens date) 0 + get (original_tokens m) 0) daily_tokens)))"

text \<open>
  \<^verbatim>\<open>min\<close>, \<^verbatim>\<open>max\<close> and \<^verbatim>\<open>statistics.median\<close>; like \<^verbatim>\<open>statistics.mean\<close> they are called after
  \<^verbatim>\<open>if not active_values: return None\<close>, on a non-empty list.
\<close>

definition py_min :: "int list \<Rightarrow> int" where
  "py_min xs = fold min (tl xs) (hd xs)"

definition py_max :: "int list \<Rightarrow> int" where
  "py_max xs = fold max (tl xs) (hd xs)"

definition median :: "int list \<Rightarrow> rat" where
  "median xs =
     (let d = sort xs; n = length d in
      if n mod 2 = 1 then of_int (d ! (n div 2))
      else (of_int (d ! (n div 2 - 1)) + of_int (d ! (n div 2))) / 2)"

text \<open>The value \<^verbatim>\<open>DailyStats(...)\<close> that \<^verbatim>\<open>analyze_daily\<close> returns, from \<^verbatim>\<open>active_values\<close>.\<close>

definition daily_stats :: "int list \<Rightarrow> DailyStats" where
  "daily_stats active_values =
     \<lparr>active_days = int (length active_values),
      avg_tokens_per_day = mean (map of_int active_values),
      min_tokens_per_day = py_min active_values,
      max_tokens_per_day = py_max active_values,
      median_tokens_per_day = median active_values,
      daily_values = sort active_values,
      total_saved_tokens' = 0, total_money_saved' = 0, total_shadows' = 0,
      total_expands' = 0, models' = []\<rparr>"

definition analyze_daily :: "(string \<Rightarrow> string option) \<Rightarrow> event_record list
    \<Rightarrow> py_error + DailyStats option" where
  "analyze_daily iso_date entries =
     (let msgs = filter is_message entries in
      if msgs = [] then Inr None
      else
        (case group_by_date iso_date msgs [] of
           Inl e \<Rightarrow> Inl e
         | Inr daily_tokens \<Rightarrow>
             let active_values = filter (\<lambda>tokens. tokens > 0) (map snd daily_tokens) in
             if active_values = [] then Inr None
             else Inr (Some (daily_stats active_values))))"

text \<open>
  The days of a log, for the statements below: the entries that \<^verbatim>\<open>analyze_daily\<close> dates, the
  date of an entry, the set of dates, the sum of \<^verbatim>\<open>original_tokens\<close> of a date, and the sums of
  the active days (those with a sum above 0), as a multiset.
\<close>

definition dated :: "event_record list \<Rightarrow> event_record list" where
  "dated es = filter (\<lambda>m. is_message m \<and> get (timestamp m) [] \<noteq> []) es"

definition date_of :: "(string \<Rightarrow> string option) \<Rightarrow> event_record \<Rightarrow> string option" where
  "date_of iso_date m = iso_date (take 19 (get (timestamp m) []))"

definition days :: "(string \<Rightarrow> string option) \<Rightarrow> event_record list \<Rightarrow> string set" where
  "days iso_date es = {d. \<exists>m \<in> set (dated es). date_of iso_date m = Some d}"

definition day_total :: "(string \<Rightarrow> string option) \<Rightarrow> event_record list \<Rightarrow> string \<Rightarrow> int" where
  "day_total iso_date es d =
     sum_list (map (\<lambda>m. get (original_tokens m) 0)
                   (filter (\<lambda>m. date_of iso_date m = Some d) (dated es)))"

definition active_totals :: "(string \<Rightarrow> string option) \<Rightarrow> event_record list \<Rightarrow> int multiset" where
  "active_totals iso_date es =
     image_mset (day_total iso_date es)
       (mset_set {d \<in> days iso_date es. 0 < day_total iso_date es d})"

text \<open>
  A date parser to run the functions with. It accepts \<^verbatim>\<open>YYYY-MM-DD\<close> and
  \<^verbatim>\<open>YYYY-MM-DD?HH:MM:SS\<close> (any character at \<^verbatim>\<open>?\<close>) with every field in range, the forms that
  \<^verbatim>\<open>fromisoformat\<close> accepts in every version of Python that has it, and answers with the first
  ten characters, which is the text of the date. It rejects every other string; newer
  versions of \<^verbatim>\<open>fromisoformat\<close> accept some of them. The theorems hold for every parser.
\<close>

definition number :: "string \<Rightarrow> nat option" where
  "number s =
     (if s \<noteq> [] \<and> list_all (\<lambda>c. c \<in> set ''0123456789'') s
      then Some (fold (\<lambda>c n. 10 * n + (of_char c - 48)) s 0) else None)"

definition days_in_month :: "nat \<Rightarrow> nat \<Rightarrow> nat" where
  "days_in_month y m =
     (if m = 2 then (if (if y mod 100 = 0 then y mod 400 = 0 else y mod 4 = 0) then 29 else 28)
      else if m \<in> {4, 6, 9, 11} then 30 else 31)"

definition valid_date :: "string \<Rightarrow> bool" where
  "valid_date s =
     (length s = 10 \<and> s ! 4 = CHR ''-'' \<and> s ! 7 = CHR ''-'' \<and>
      (case (number (take 4 s), number (take 2 (drop 5 s)), number (take 2 (drop 8 s))) of
         (Some y, Some m, Some d) \<Rightarrow> 1 \<le> y \<and> 1 \<le> m \<and> m \<le> 12 \<and> 1 \<le> d \<and> d \<le> days_in_month y m
       | _ \<Rightarrow> False))"

definition valid_time :: "string \<Rightarrow> bool" where
  "valid_time s =
     (length s = 8 \<and> s ! 2 = CHR '':'' \<and> s ! 5 = CHR '':'' \<and>
      (case (number (take 2 s), number (take 2 (drop 3 s)), number (take 2 (drop 6 s))) of
         (Some h, Some m, Some sec) \<Rightarrow> h < 24 \<and> m < 60 \<and> sec < 60
       | _ \<Rightarrow> False))"

definition strict_iso_date :: "string \<Rightarrow> string option" where
  "strict_iso_date s =
     (if valid_date (take 10 s) \<and> (length s = 10 \<or> length s = 19 \<and> valid_time (drop 11 s))
      then Some (take 10 s) else None)"

subsection \<open>Token savings in the words of the specification\<close>

text \<open>
  The key under which \<^verbatim>\<open>analyze_tokens\<close> files an entry, and the two sums of \<^verbatim>\<open>tokens_saved\<close>
  for a key: over all \<^verbatim>\<open>/v1/messages\<close> entries of the model, and over the compressed ones only
  (the reading of claim C1).
\<close>

definition model_key :: "event_record \<Rightarrow> string" where
  "model_key m = get (model m) ''unknown''"

definition saved_of_model :: "event_record list \<Rightarrow> string \<Rightarrow> int" where
  "saved_of_model es k =
     sum_list (map (\<lambda>m. get (tokens_saved m) 0)
                   (filter (\<lambda>m. is_message m \<and> model_key m = k) es))"

definition compressed_saved_of_model :: "event_record list \<Rightarrow> string \<Rightarrow> int" where
  "compressed_saved_of_model es k =
     sum_list (map (\<lambda>m. get (tokens_saved m) 0)
                   (filter (\<lambda>m. is_message m \<and> truthy (compression_used m) \<and> model_key m = k) es))"

subsection \<open>Sample logs\<close>

text \<open>Request logs on which the theorems below are exercised.\<close>

definition request :: "string \<Rightarrow> bool \<Rightarrow> int \<Rightarrow> int \<Rightarrow> string \<Rightarrow> event_record" where
  "request mdl used tokens saved_n ts =
     \<lparr>path = Some ''/v1/messages'', model = Some mdl, compression_used = Some used,
      original_tokens = Some tokens, tokens_saved = Some saved_n,
      shadow_refs_created = Some 0, expand_calls_found = Some 0, timestamp = Some ts\<rparr>"

definition health_check :: event_record where
  "health_check =
     \<lparr>path = Some ''/health'', model = None, compression_used = None, original_tokens = None,
      tokens_saved = None, shadow_refs_created = None, expand_calls_found = None,
      timestamp = Some ''2025-03-01T08:59:00Z''\<rparr>"

definition request_log :: "event_record list" where
  "request_log =
     [health_check,
      request ''claude-opus-4-1'' True 200 100 ''2025-03-01T09:00:00Z'',
      request ''claude-opus-4-1'' False 200 0 ''2025-03-01T17:30:00Z'',
      request ''claude-opus-4-1'' True 200 50 ''2025-03-02T08:15:00Z'',
      request ''claude-haiku-4-5'' False 0 0 ''2025-03-03T11:00:00Z'']"


definition broken_log :: "event_record list" where
  "broken_log = request_log @ [request ''claude-opus-4-1'' True 200 100 ''yesterday'']"

text \<open>Compression logs on which the theorems below are exercised.\<close>

definition compressed_entry :: "int \<Rightarrow> int \<Rightarrow> compression_record" where
  "compressed_entry n k =
     \<lparr>tool_name = Some ''Read'', status = Some ''compressed'', original_bytes = Some n,
      compressed_bytes = Some k, min_threshold = Some 512\<rparr>"

definition example_log :: "compression_record list" where
  "example_log =
     [compressed_entry 300 290, compressed_entry 2000 500, compressed_entry 300 290,
      compressed_entry 2000 500, compressed_entry 300 290, compressed_entry 2000 500,
      compressed_entry 300 290, compressed_entry 2000 500, compressed_entry 2000 500,
      compressed_entry 2000 500]"




definition wasteful_log :: "compression_record list" where
  "wasteful_log =
     [compressed_entry 100 10, compressed_entry 1000 990, compressed_entry 100 10,
      compressed_entry 1000 990, compressed_entry 100 10, compressed_entry 1000 990,
      compressed_entry 100 10, compressed_entry 1000 990, compressed_entry 100 10,
      compressed_entry 1000 990, compressed_entry 100 10, compressed_entry 1000 990]"

section \<open>Properties\<close>

subsection \<open>Pricing\<close>

lemma starts_with_iff: "starts_with s key \<longleftrightarrow> (\<exists>after. s = key @ after)"
  by (induction s key rule: starts_with.induct) auto

lemma str_in_iff: "str_in key s \<longleftrightarrow> is_substring key s"
proof (induction s)
  case Nil
  then show ?case by (auto simp: is_substring_def)
next
  case (Cons c cs)
  have "is_substring key (c # cs) \<longleftrightarrow>
        (\<exists>after. c # cs = key @ after) \<or> is_substring key cs"
    unfolding is_substring_def
  proof
    assume "\<exists>before after. c # cs = before @ key @ after"
    then obtain before after where e: "c # cs = before @ key @ after" by blast
    show "(\<exists>after. c # cs = key @ after) \<or> (\<exists>before after. cs = before @ key @ after)"
    proof (cases before)
      case Nil
      with e show ?thesis by auto
    next
      case (Cons b bs)
      with e have "cs = bs @ key @ after" by simp
      then show ?thesis by blast
    qed
  next
    assume "(\<exists>after. c # cs = key @ after) \<or> (\<exists>before after. cs = before @ key @ after)"
    then show "\<exists>before after. c # cs = before @ key @ after"
    proof
      assume "\<exists>after. c # cs = key @ after"
      then obtain after where "c # cs = [] @ key @ after" by auto
      then show ?thesis by blast
    next
      assume "\<exists>before after. cs = before @ key @ after"
      then obtain before after where "c # cs = (c # before) @ key @ after" by auto
      then show ?thesis by blast
    qed
  qed
  with Cons show ?case by (simp add: starts_with_iff)
qed

lemma map_of_key: "k \<in> fst ` set al \<Longrightarrow> map_of al k = Some (the (map_of al k))"
  by (cases "map_of al k") (auto simp: map_of_eq_None_iff)

text \<open>
  C5. For every live table and every model string, \<open>get_price\<close> returns the live table's
  value when the live table is non-empty and has the model as an exact key; otherwise the
  price of the first of "opus" (15), "sonnet" (3), "haiku" (1), in this order, that is a
  substring of the model string; otherwise 3.
\<close>

theorem get_price_resolution: "get_price live mdl = price_spec live mdl"
proof (cases "live \<noteq> [] \<and> mdl \<in> fst ` set live")
  case True
  then obtain price where "map_of live mdl = Some price"
    using map_of_key [of mdl live] by blast
  with True show ?thesis
    by (simp add: get_price_def price_spec_def)
next
  case False
  then have "(if live \<noteq> [] then map_of live mdl else None) = None"
    by (auto simp: map_of_eq_None_iff)
  then have "get_price live mdl =
      (case scan_prices FALLBACK_PRICES mdl of Some price \<Rightarrow> price | None \<Rightarrow> 3)"
    by (simp add: get_price_def)
  moreover have "price_spec live mdl =
      (if is_substring ''opus'' mdl then 15
       else if is_substring ''sonnet'' mdl then 3
       else if is_substring ''haiku'' mdl then 1 else 3)"
    using False unfolding price_spec_def by (rule if_not_P)
  ultimately show ?thesis
    by (simp add: FALLBACK_PRICES_def str_in_iff)
qed

theorem get_price_resolution_witness:
  "price_spec [(''claude-opus-4-1'', 20)] ''claude-opus-4-1'' = 20
   \<and> price_spec [(''claude-opus-4-1'', 20)] ''claude-sonnet-opus'' = 15
   \<and> price_spec [] ''claude-3-5-haiku-sonnet'' = 3
   \<and> price_spec [] ''claude-haiku-4-5-20251001'' = 1
   \<and> price_spec [] ''gpt-4o'' = 3"
  using get_price_resolution [of "[(''claude-opus-4-1'', 20)]" "''claude-opus-4-1''"]
        get_price_resolution [of "[(''claude-opus-4-1'', 20)]" "''claude-sonnet-opus''"]
        get_price_resolution [of "[]" "''claude-3-5-haiku-sonnet''"]
        get_price_resolution [of "[]" "''claude-haiku-4-5-20251001''"]
        get_price_resolution [of "[]" "''gpt-4o''"]
  by (simp add: get_price_def FALLBACK_PRICES_def)

subsection \<open>Token savings\<close>














text \<open>
  Where every entry that is not compressed has \<^verbatim>\<open>tokens_saved\<close> 0 or absent, the sum over a
  model's entries is the sum over its compressed entries.
\<close>

lemma saved_of_model_compressed:
  assumes "\<forall>m \<in> set es. is_message m \<and> \<not> truthy (compression_used m) \<longrightarrow> get (tokens_saved m) 0 = 0"
  shows "saved_of_model es k = compressed_saved_of_model es k"
  using assms unfolding saved_of_model_def compressed_saved_of_model_def
  by (induction es) auto




subsection \<open>The threshold sweep\<close>

text \<open>
  What one round of the loop records, and when it records nothing.
\<close>

lemma eval_threshold_SomeD:
  assumes "eval_threshold live cd T = Some (r, a)"
  shows "threshold r = T"
    and "calls r = int (length (filter (\<lambda>c. orig c \<ge> T) cd))"
    and "wasted r = sum_list (map (\<lambda>c. 1) (filter (\<lambda>c. ratio c \<ge> 9 / 10) (filter (\<lambda>c. orig c \<ge> T) cd)))"
    and "saved r = sum_list (map (\<lambda>c. orig c - comp c) (filter (\<lambda>c. ratio c < 9 / 10) (filter (\<lambda>c. orig c \<ge> T) cd)))"
    and "filter (\<lambda>c. orig c \<ge> T) cd \<noteq> []"
  using assms by (auto simp: eval_threshold_def Let_def split: if_splits)

lemma eval_threshold_None_iff:
  "eval_threshold live cd T = None \<longleftrightarrow> filter (\<lambda>c. orig c \<ge> T) cd = []"
  by (simp add: eval_threshold_def Let_def)

text \<open>
  The loop appends, for each candidate in turn, the result of its round.
\<close>

lemma fst_sweep:
  "fst (sweep live cd cur Ts (rs, tci)) =
     rs @ List.map_filter (\<lambda>T. map_option fst (eval_threshold live cd T)) Ts"
  by (induction Ts arbitrary: rs tci) (auto split: option.splits)

lemma map_filter_mem:
  "r \<in> set (List.map_filter f xs) \<longleftrightarrow> (\<exists>x \<in> set xs. f x = Some r)"
  by (induction xs) (auto split: option.splits)

lemma results_of_mem:
  "r \<in> set (results_of live cd) \<longleftrightarrow>
     (\<exists>T \<in> set CANDIDATES. \<exists>a. eval_threshold live cd T = Some (r, a))"
  by (auto simp: results_of_def map_filter_mem)

lemma results_of_memD:
  assumes "r \<in> set (results_of live cd)"
  shows "threshold r \<in> set CANDIDATES"
    and "\<exists>a. eval_threshold live cd (threshold r) = Some (r, a)"
proof -
  obtain T a where T: "T \<in> set CANDIDATES" and e: "eval_threshold live cd T = Some (r, a)"
    using assms unfolding results_of_mem by blast
  have "threshold r = T" using e by (rule eval_threshold_SomeD(1))
  with T e show "threshold r \<in> set CANDIDATES" "\<exists>a. eval_threshold live cd (threshold r) = Some (r, a)"
    by auto
qed

lemma map_threshold_map_filter:
  "map threshold (List.map_filter (\<lambda>T. map_option fst (eval_threshold live cd T)) Ts) =
     filter (\<lambda>T. eval_threshold live cd T \<noteq> None) Ts"
proof (induction Ts)
  case Nil
  show ?case by simp
next
  case (Cons T Ts)
  show ?case
  proof (cases "eval_threshold live cd T")
    case None
    with Cons show ?thesis by simp
  next
    case (Some p)
    obtain r a where p: "p = (r, a)" by (cases p)
    have "threshold r = T" using Some p eval_threshold_SomeD(1) by blast
    with Cons Some p show ?thesis by simp
  qed
qed

lemma thresholds_of_results:
  "map threshold (results_of live cd) = filter (\<lambda>T. \<exists>c \<in> set cd. orig c \<ge> T) CANDIDATES"
proof -
  have "\<And>T. (eval_threshold live cd T \<noteq> None) = (\<exists>c \<in> set cd. orig c \<ge> T)"
    by (auto simp: eval_threshold_None_iff filter_empty_conv)
  then show ?thesis
    by (simp add: results_of_def map_threshold_map_filter)
qed

lemma sorted_results: "sorted_wrt (<) (map threshold (results_of live cd))"
proof -
  have "sorted_wrt (<) CANDIDATES" by (simp add: CANDIDATES_def)
  then show ?thesis
    unfolding thresholds_of_results by (rule sorted_wrt_filter)
qed

lemma candidates_ge: "T \<in> set CANDIDATES \<Longrightarrow> 256 \<le> T"
  by (auto simp: CANDIDATES_def)

text \<open>
  The first loop of \<^verbatim>\<open>analyze_sizes\<close> leaves the fields of the threshold analysis at their
  defaults, and the function returns a value exactly when some entry has a size other than 0.
\<close>

lemma record_size_keeps:
  "thresholds (record_size stats rec) = thresholds stats"
  "sweet_spot (record_size stats rec) = sweet_spot stats"
  "compression_cost (record_size stats rec) = compression_cost stats"
  "current_threshold (record_size stats rec) = current_threshold stats"
  by (simp_all add: record_size_def Let_def)

lemma fold_record_size_keeps:
  "thresholds (fold (\<lambda>rec stats. record_size stats rec) es stats) = thresholds stats"
  "sweet_spot (fold (\<lambda>rec stats. record_size stats rec) es stats) = sweet_spot stats"
  "compression_cost (fold (\<lambda>rec stats. record_size stats rec) es stats) = compression_cost stats"
  "current_threshold (fold (\<lambda>rec stats. record_size stats rec) es stats) = current_threshold stats"
  by (induction es arbitrary: stats) (simp_all add: record_size_keeps)

lemma all_sizes_fold:
  "all_sizes (fold (\<lambda>rec stats. record_size stats rec) es stats) =
     all_sizes stats @ filter (\<lambda>n. n \<noteq> 0) (map (\<lambda>rec. get (original_bytes rec) 0) es)"
  by (induction es arbitrary: stats) (simp_all add: record_size_def Let_def)

lemma analyze_sizes_None_iff:
  "analyze_sizes live es = None \<longleftrightarrow> (\<forall>rec \<in> set es. get (original_bytes rec) 0 = 0)"
proof (cases "es = []")
  case True
  then show ?thesis by (simp add: analyze_sizes_def)
next
  case False
  then show ?thesis
    by (simp add: analyze_sizes_def Let_def all_sizes_fold new_SizeStats_def filter_empty_conv)
qed

lemma analyze_sizes_returns:
  assumes "rec \<in> set es" and "get (original_bytes rec) 0 \<noteq> 0"
  obtains s where "analyze_sizes live es = Some s"
  using assms analyze_sizes_None_iff [of live es] by (cases "analyze_sizes live es") auto

lemma threshold_analysis_fields:
  assumes "thresholds stats = []" "sweet_spot stats = 0" "compression_cost stats = 0"
  shows "thresholds (threshold_analysis live cd stats) =
           (if length cd \<ge> 10 then results_of live cd else [])"
    and "sweet_spot (threshold_analysis live cd stats) =
           find_sweet_spot (thresholds (threshold_analysis live cd stats)) 0"
    and "length cd < 10 \<Longrightarrow> compression_cost (threshold_analysis live cd stats) = 0"
proof -
  obtain rs tci where sw: "sweep live cd (current_threshold stats) CANDIDATES ([], 0) = (rs, tci)"
    by (cases "sweep live cd (current_threshold stats) CANDIDATES ([], 0)") auto
  have rs: "rs = results_of live cd"
    using fst_sweep [of live cd "current_threshold stats" CANDIDATES "[]" 0] sw
    by (simp add: results_of_def)
  show "thresholds (threshold_analysis live cd stats) =
           (if length cd \<ge> 10 then results_of live cd else [])"
    using assms sw rs by (simp add: threshold_analysis_def Let_def)
  show "sweet_spot (threshold_analysis live cd stats) =
           find_sweet_spot (thresholds (threshold_analysis live cd stats)) 0"
    using assms sw rs by (simp add: threshold_analysis_def Let_def)
  show "length cd < 10 \<Longrightarrow> compression_cost (threshold_analysis live cd stats) = 0"
    using assms by (simp add: threshold_analysis_def)
qed

lemma analyze_sizes_fields:
  assumes "analyze_sizes live es = Some s"
  shows "thresholds s = (if length (compressed_data es) \<ge> 10 then results_of live (compressed_data es) else [])"
    and "sweet_spot s = find_sweet_spot (thresholds s) 0"
    and "length (compressed_data es) < 10 \<Longrightarrow> compression_cost s = 0"
proof -
  define stats where "stats = fold (\<lambda>rec stats. record_size stats rec) es new_SizeStats"
  define stats1 where
    "stats1 = stats\<lparr>current_threshold := scan_threshold (rev es) (current_threshold stats)\<rparr>"
  have s: "s = threshold_analysis live (compressed_data es) stats1"
    using assms unfolding analyze_sizes_def stats_def stats1_def Let_def
    by (simp split: if_splits)
  have init: "thresholds stats1 = []" "sweet_spot stats1 = 0" "compression_cost stats1 = 0"
    by (simp_all add: stats1_def stats_def fold_record_size_keeps new_SizeStats_def)
  show "thresholds s = (if length (compressed_data es) \<ge> 10 then results_of live (compressed_data es) else [])"
    unfolding s by (rule threshold_analysis_fields(1) [OF init])
  show "sweet_spot s = find_sweet_spot (thresholds s) 0"
    unfolding s by (rule threshold_analysis_fields(2) [OF init])
  show "length (compressed_data es) < 10 \<Longrightarrow> compression_cost s = 0"
    unfolding s by (rule threshold_analysis_fields(3) [OF init])
qed

text \<open>
  The samples: the quotient is the exact one, and a sample that is not wasted saves bytes.
\<close>

lemma compressed_data_sample:
  "c \<in> set (compressed_data es) \<Longrightarrow> orig c \<noteq> 0 \<and> ratio c = of_int (comp c) / of_int (orig c)"
  by (induction es) (auto simp: Let_def split: if_splits)


lemma worthwhile_positive:
  assumes "c \<in> set (compressed_data es)" and "0 < orig c" and "ratio c < 9 / 10"
  shows "0 < orig c - comp c"
proof -
  have r: "ratio c = of_int (comp c) / of_int (orig c)"
    using assms(1) compressed_data_sample by blast
  have pos: "(0::rat) < of_int (orig c)" using assms(2) by simp
  have "(of_int (comp c) :: rat) < 9 / 10 * of_int (orig c)"
    using assms(3) pos unfolding r by (simp add: pos_divide_less_eq)
  also have "\<dots> \<le> of_int (orig c)" using pos by simp
  finally have "comp c < orig c" by simp
  then show ?thesis by simp
qed

lemma sum_list_nonneg_filter:
  "(\<And>x. x \<in> set xs \<Longrightarrow> P x \<Longrightarrow> (0::int) \<le> f x) \<Longrightarrow> 0 \<le> sum_list (map f (filter P xs))"
  by (induction xs) auto


lemma find_sweet_spot_none:
  "\<forall>r \<in> set rs. wasted r \<noteq> 0 \<Longrightarrow> find_sweet_spot rs spot = spot"
  by (induction rs) auto

lemma find_sweet_spot_first:
  "\<exists>r \<in> set rs. wasted r = 0 \<Longrightarrow>
     \<exists>pre r post. rs = pre @ r # post \<and> (\<forall>q \<in> set pre. wasted q \<noteq> 0) \<and> wasted r = 0
        \<and> find_sweet_spot rs spot = threshold r"
proof (induction rs)
  case Nil
  then show ?case by simp
next
  case (Cons x xs)
  show ?case
  proof (cases "wasted x = 0")
    case True
    then have "x # xs = [] @ x # xs \<and> (\<forall>q \<in> set []. wasted q \<noteq> 0) \<and> wasted x = 0
        \<and> find_sweet_spot (x # xs) spot = threshold x" by simp
    then show ?thesis by blast
  next
    case False
    with Cons.prems have "\<exists>r \<in> set xs. wasted r = 0" by auto
    then obtain pre r post where
      "xs = pre @ r # post" "\<forall>q \<in> set pre. wasted q \<noteq> 0" "wasted r = 0"
      "find_sweet_spot xs spot = threshold r"
      using Cons.IH by blast
    with False have "x # xs = (x # pre) @ r # post \<and> (\<forall>q \<in> set (x # pre). wasted q \<noteq> 0)
        \<and> wasted r = 0 \<and> find_sweet_spot (x # xs) spot = threshold r" by simp
    then show ?thesis by blast
  qed
qed

text \<open>
  The sweep on the sample log: ten samples, four of 300 bytes that shrink to 290 and six of
  2000 bytes that shrink to 500.
\<close>

lemma example_data:
  "compressed_data example_log =
     [\<lparr>orig = 300, comp = 290, ratio = 29 / 30\<rparr>, \<lparr>orig = 2000, comp = 500, ratio = 1 / 4\<rparr>,
      \<lparr>orig = 300, comp = 290, ratio = 29 / 30\<rparr>, \<lparr>orig = 2000, comp = 500, ratio = 1 / 4\<rparr>,
      \<lparr>orig = 300, comp = 290, ratio = 29 / 30\<rparr>, \<lparr>orig = 2000, comp = 500, ratio = 1 / 4\<rparr>,
      \<lparr>orig = 300, comp = 290, ratio = 29 / 30\<rparr>, \<lparr>orig = 2000, comp = 500, ratio = 1 / 4\<rparr>,
      \<lparr>orig = 2000, comp = 500, ratio = 1 / 4\<rparr>, \<lparr>orig = 2000, comp = 500, ratio = 1 / 4\<rparr>]"
  by (simp add: example_log_def compressed_entry_def get_def)

lemma example_results:
  "map (\<lambda>r. (threshold r, calls r, saved r, wasted r)) (results_of [] (compressed_data example_log)) =
     [(256, 10, 9000, 4), (512, 6, 9000, 0), (768, 6, 9000, 0), (1024, 6, 9000, 0), (1536, 6, 9000, 0)]"
  unfolding example_data
  by (simp add: results_of_def CANDIDATES_def eval_threshold_def Let_def)

lemma example_run:
  obtains s where "analyze_sizes [] example_log = Some s"
    and "map (\<lambda>r. (threshold r, calls r, saved r, wasted r)) (thresholds s) =
       [(256, 10, 9000, 4), (512, 6, 9000, 0), (768, 6, 9000, 0), (1024, 6, 9000, 0), (1536, 6, 9000, 0)]"
proof -
  have "compressed_entry 300 290 \<in> set example_log"
    and "get (original_bytes (compressed_entry 300 290)) 0 \<noteq> 0"
    by (simp_all add: example_log_def compressed_entry_def get_def)
  then obtain s where s: "analyze_sizes [] example_log = Some s"
    by (rule analyze_sizes_returns)
  have "length (compressed_data example_log) = 10"
    unfolding example_data by simp
  then have "thresholds s = results_of [] (compressed_data example_log)"
    using analyze_sizes_fields(1) [OF s] by simp
  with s example_results that show thesis by simp
qed

lemma example_projections:
  assumes "map (\<lambda>r. (threshold r, calls r, saved r, wasted r)) rs = xs"
  shows "map threshold rs = map fst xs"
    and "map calls rs = map (fst \<circ> snd) xs"
    and "map saved rs = map (fst \<circ> snd \<circ> snd) xs"
    and "map wasted rs = map (snd \<circ> snd \<circ> snd) xs"
  using assms by auto

lemma in_map_obtain:
  assumes "map f rs = xs" and "x \<in> set xs"
  obtains r where "r \<in> set rs" and "f r = x"
  using assms by auto



text \<open>
  C6. For two recorded thresholds \<open>T1 < T2\<close>, the eligible count recorded at \<open>T2\<close> is at most
  the one recorded at \<open>T1\<close>.
\<close>

theorem eligible_counts_antimono:
  assumes "analyze_sizes live es = Some s"
    and "r1 \<in> set (thresholds s)" and "r2 \<in> set (thresholds s)"
    and "threshold r1 < threshold r2"
  shows "calls r2 \<le> calls r1"
proof -
  let ?cd = "compressed_data es"
  have in1: "r1 \<in> set (results_of live ?cd)" and in2: "r2 \<in> set (results_of live ?cd)"
    using assms analyze_sizes_fields(1) [OF assms(1)] by (auto split: if_splits)
  obtain a1 where e1: "eval_threshold live ?cd (threshold r1) = Some (r1, a1)"
    using results_of_memD(2) [OF in1] by blast
  obtain a2 where e2: "eval_threshold live ?cd (threshold r2) = Some (r2, a2)"
    using results_of_memD(2) [OF in2] by blast
  have "filter (\<lambda>c. threshold r2 \<le> orig c) ?cd
        = filter (\<lambda>c. threshold r2 \<le> orig c) (filter (\<lambda>c. threshold r1 \<le> orig c) ?cd)"
    using assms(4) by (auto intro: filter_cong)
  then have "length (filter (\<lambda>c. threshold r2 \<le> orig c) ?cd)
        \<le> length (filter (\<lambda>c. threshold r1 \<le> orig c) ?cd)"
    by (metis length_filter_le)
  then show ?thesis
    using eval_threshold_SomeD(2) [OF e1] eval_threshold_SomeD(2) [OF e2] by simp
qed

theorem eligible_counts_antimono_witness:
  "\<exists>s r1 r2. analyze_sizes [] example_log = Some s
      \<and> r1 \<in> set (thresholds s) \<and> r2 \<in> set (thresholds s)
      \<and> threshold r1 = 256 \<and> threshold r2 = 512 \<and> calls r2 \<le> calls r1"
proof -
  obtain s where s: "analyze_sizes [] example_log = Some s"
    and rs: "map (\<lambda>r. (threshold r, calls r, saved r, wasted r)) (thresholds s) =
       [(256, 10, 9000, 4), (512, 6, 9000, 0), (768, 6, 9000, 0), (1024, 6, 9000, 0), (1536, 6, 9000, 0)]"
    by (rule example_run)
  have t: "map threshold (thresholds s) = [256, 512, 768, 1024, 1536]"
    using example_projections(1) [OF rs] by simp
  obtain r1 where r1: "r1 \<in> set (thresholds s)" "threshold r1 = 256"
    using in_map_obtain [OF t, of 256] by auto
  obtain r2 where r2: "r2 \<in> set (thresholds s)" "threshold r2 = 512"
    using in_map_obtain [OF t, of 512] by auto
  have "calls r2 \<le> calls r1"
    using eligible_counts_antimono [OF s r1(1) r2(1)] r1(2) r2(2) by simp
  with s r1 r2 show ?thesis by blast
qed

text \<open>
  C10. Every recorded result has \<open>calls \<ge> 1\<close> and \<open>saved \<ge> 0\<close>, every sample that
  contributes to \<open>saved\<close> contributes a strictly positive amount, and the recorded thresholds
  are strictly increasing: when the sweep runs they are the candidates, in their order, at or
  below the size of some sample, and a candidate above every sample is not recorded.
\<close>

theorem recorded_results_invariant:
  assumes "analyze_sizes live es = Some s"
  shows "(\<forall>r \<in> set (thresholds s). 1 \<le> calls r \<and> 0 \<le> saved r
            \<and> (\<forall>c \<in> set (compressed_data es).
                  threshold r \<le> orig c \<and> ratio c < 9 / 10 \<longrightarrow> 0 < orig c - comp c))
       \<and> sorted_wrt (<) (map threshold (thresholds s))
       \<and> map threshold (thresholds s) =
           (if 10 \<le> length (compressed_data es)
            then filter (\<lambda>T. \<exists>c \<in> set (compressed_data es). T \<le> orig c) CANDIDATES
            else [])"
proof -
  let ?cd = "compressed_data es"
  have each: "1 \<le> calls r \<and> 0 \<le> saved r
      \<and> (\<forall>c \<in> set ?cd. threshold r \<le> orig c \<and> ratio c < 9 / 10 \<longrightarrow> 0 < orig c - comp c)"
    if "r \<in> set (thresholds s)" for r
  proof -
    have mem: "r \<in> set (results_of live ?cd)"
      using that analyze_sizes_fields(1) [OF assms] by (auto split: if_splits)
    obtain a where e: "eval_threshold live ?cd (threshold r) = Some (r, a)"
      using results_of_memD(2) [OF mem] by blast
    have T: "256 \<le> threshold r"
      using results_of_memD(1) [OF mem] by (rule candidates_ge)
    have "filter (\<lambda>c. threshold r \<le> orig c) ?cd \<noteq> []"
      using e by (rule eval_threshold_SomeD(5))
    then have "1 \<le> int (length (filter (\<lambda>c. threshold r \<le> orig c) ?cd))"
      by (cases "filter (\<lambda>c. threshold r \<le> orig c) ?cd") simp_all
    then have calls: "1 \<le> calls r"
      unfolding eval_threshold_SomeD(2) [OF e] .
    have pos: "0 < orig c - comp c"
      if "c \<in> set ?cd" "threshold r \<le> orig c" "ratio c < 9 / 10" for c
      using that T by (intro worthwhile_positive [of c es]) auto
    have "0 \<le> sum_list (map (\<lambda>c. orig c - comp c)
             (filter (\<lambda>c. ratio c < 9 / 10) (filter (\<lambda>c. threshold r \<le> orig c) ?cd)))"
      by (rule sum_list_nonneg_filter) (use pos in fastforce)
    then have saved: "0 \<le> saved r"
      using eval_threshold_SomeD(4) [OF e] by simp
    from calls saved pos show ?thesis by blast
  qed
  have increasing: "sorted_wrt (<) (map threshold (thresholds s))"
    using analyze_sizes_fields(1) [OF assms] sorted_results [of live "compressed_data es"]
    by (simp split: if_splits)
  have recorded: "map threshold (thresholds s) =
      (if 10 \<le> length ?cd then filter (\<lambda>T. \<exists>c \<in> set ?cd. T \<le> orig c) CANDIDATES else [])"
    using analyze_sizes_fields(1) [OF assms] thresholds_of_results [of live ?cd] by simp
  from each increasing recorded show ?thesis by blast
qed

theorem recorded_results_invariant_witness:
  "\<exists>s. analyze_sizes [] example_log = Some s
      \<and> map threshold (thresholds s) = [256, 512, 768, 1024, 1536]
      \<and> (\<forall>r \<in> set (thresholds s). 1 \<le> calls r \<and> 0 \<le> saved r
            \<and> (\<forall>c \<in> set (compressed_data example_log).
                  threshold r \<le> orig c \<and> ratio c < 9 / 10 \<longrightarrow> 0 < orig c - comp c))
      \<and> sorted_wrt (<) (map threshold (thresholds s))"
proof -
  obtain s where s: "analyze_sizes [] example_log = Some s"
    and rs: "map (\<lambda>r. (threshold r, calls r, saved r, wasted r)) (thresholds s) =
       [(256, 10, 9000, 4), (512, 6, 9000, 0), (768, 6, 9000, 0), (1024, 6, 9000, 0), (1536, 6, 9000, 0)]"
    by (rule example_run)
  have t: "map threshold (thresholds s) = [256, 512, 768, 1024, 1536]"
    using example_projections(1) [OF rs] by simp
  note inst = recorded_results_invariant [OF s]
  from inst have each: "\<forall>r \<in> set (thresholds s). 1 \<le> calls r \<and> 0 \<le> saved r
            \<and> (\<forall>c \<in> set (compressed_data example_log).
                  threshold r \<le> orig c \<and> ratio c < 9 / 10 \<longrightarrow> 0 < orig c - comp c)"
    by (rule conjunct1)
  from inst have increasing: "sorted_wrt (<) (map threshold (thresholds s))"
    by (elim conjE)
  from s t each increasing show ?thesis
    by (intro exI [of _ s] conjI)
qed

text \<open>
  C2. If some recorded threshold has \<open>wasted = 0\<close>, the sweet spot is a recorded threshold with
  \<open>wasted = 0\<close> and no recorded threshold below it has \<open>wasted = 0\<close>; if none has, the sweet
  spot stays 0.
\<close>

theorem sweet_spot_least_zero_waste:
  assumes "analyze_sizes live es = Some s"
  shows "if \<exists>r \<in> set (thresholds s). wasted r = 0
         then \<exists>r \<in> set (thresholds s). sweet_spot s = threshold r \<and> wasted r = 0
                \<and> (\<forall>q \<in> set (thresholds s). threshold q < threshold r \<longrightarrow> wasted q \<noteq> 0)
         else sweet_spot s = 0"
proof (cases "\<exists>r \<in> set (thresholds s). wasted r = 0")
  case False
  then have "find_sweet_spot (thresholds s) 0 = 0"
    by (intro find_sweet_spot_none) blast
  with False show ?thesis
    using analyze_sizes_fields(2) [OF assms] by simp
next
  case True
  then obtain pre r post where
    split: "thresholds s = pre @ r # post" and pre: "\<forall>q \<in> set pre. wasted q \<noteq> 0"
    and r: "wasted r = 0" and f: "find_sweet_spot (thresholds s) 0 = threshold r"
    using find_sweet_spot_first [of "thresholds s" 0] by blast
  have "sorted_wrt (<) (map threshold (thresholds s))"
    using analyze_sizes_fields(1) [OF assms] sorted_results [of live "compressed_data es"]
    by (simp split: if_splits)
  then have later: "\<forall>q \<in> set post. threshold r < threshold q"
    unfolding split by (simp add: sorted_wrt_append)
  have "wasted q \<noteq> 0" if "q \<in> set (thresholds s)" "threshold q < threshold r" for q
    using that pre later unfolding split by auto
  moreover have "r \<in> set (thresholds s)" unfolding split by simp
  moreover have "sweet_spot s = threshold r"
    using analyze_sizes_fields(2) [OF assms] f by simp
  ultimately have "\<exists>r \<in> set (thresholds s). sweet_spot s = threshold r \<and> wasted r = 0
      \<and> (\<forall>q \<in> set (thresholds s). threshold q < threshold r \<longrightarrow> wasted q \<noteq> 0)"
    using r by blast
  with True show ?thesis by simp
qed

text \<open>
  The sweep on a log of twelve samples, six of 100 bytes, below every candidate, and six of
  1000 bytes that shrink to 990: every recorded threshold has six wasted samples.
\<close>

lemma wasteful_run:
  obtains s where "analyze_sizes [] wasteful_log = Some s"
    and "map (\<lambda>r. (threshold r, wasted r)) (thresholds s) = [(256, 6), (512, 6), (768, 6)]"
proof -
  have "compressed_entry 100 10 \<in> set wasteful_log"
    and "get (original_bytes (compressed_entry 100 10)) 0 \<noteq> 0"
    by (simp_all add: wasteful_log_def compressed_entry_def get_def)
  then obtain s where s: "analyze_sizes [] wasteful_log = Some s"
    by (rule analyze_sizes_returns)
  have cd: "compressed_data wasteful_log =
     [\<lparr>orig = 100, comp = 10, ratio = 1 / 10\<rparr>, \<lparr>orig = 1000, comp = 990, ratio = 99 / 100\<rparr>,
      \<lparr>orig = 100, comp = 10, ratio = 1 / 10\<rparr>, \<lparr>orig = 1000, comp = 990, ratio = 99 / 100\<rparr>,
      \<lparr>orig = 100, comp = 10, ratio = 1 / 10\<rparr>, \<lparr>orig = 1000, comp = 990, ratio = 99 / 100\<rparr>,
      \<lparr>orig = 100, comp = 10, ratio = 1 / 10\<rparr>, \<lparr>orig = 1000, comp = 990, ratio = 99 / 100\<rparr>,
      \<lparr>orig = 100, comp = 10, ratio = 1 / 10\<rparr>, \<lparr>orig = 1000, comp = 990, ratio = 99 / 100\<rparr>,
      \<lparr>orig = 100, comp = 10, ratio = 1 / 10\<rparr>, \<lparr>orig = 1000, comp = 990, ratio = 99 / 100\<rparr>]"
    by (simp add: wasteful_log_def compressed_entry_def get_def)
  have "map (\<lambda>r. (threshold r, wasted r)) (results_of [] (compressed_data wasteful_log)) =
      [(256, 6), (512, 6), (768, 6)]"
    unfolding cd by (simp add: results_of_def CANDIDATES_def eval_threshold_def Let_def)
  moreover have "thresholds s = results_of [] (compressed_data wasteful_log)"
    using analyze_sizes_fields(1) [OF s] unfolding cd by simp
  ultimately show thesis using s that by simp
qed

theorem sweet_spot_least_zero_waste_witness:
  "(\<exists>s. analyze_sizes [] example_log = Some s
      \<and> map threshold (thresholds s) = [256, 512, 768, 1024, 1536]
      \<and> map wasted (thresholds s) = [4, 0, 0, 0, 0]
      \<and> (\<exists>r \<in> set (thresholds s). sweet_spot s = threshold r \<and> wasted r = 0
            \<and> (\<forall>q \<in> set (thresholds s). threshold q < threshold r \<longrightarrow> wasted q \<noteq> 0)))
   \<and> (\<exists>s. analyze_sizes [] wasteful_log = Some s
      \<and> map wasted (thresholds s) = [6, 6, 6] \<and> sweet_spot s = 0)"
proof (rule conjI)
  obtain s where s: "analyze_sizes [] example_log = Some s"
    and rs: "map (\<lambda>r. (threshold r, calls r, saved r, wasted r)) (thresholds s) =
       [(256, 10, 9000, 4), (512, 6, 9000, 0), (768, 6, 9000, 0), (1024, 6, 9000, 0), (1536, 6, 9000, 0)]"
    by (rule example_run)
  have t: "map threshold (thresholds s) = [256, 512, 768, 1024, 1536]"
    using example_projections(1) [OF rs] by simp
  have w: "map wasted (thresholds s) = [4, 0, 0, 0, 0]"
    using example_projections(4) [OF rs] by simp
  obtain r where "r \<in> set (thresholds s)" "wasted r = 0"
    using in_map_obtain [OF w, of 0] by auto
  then have "\<exists>r \<in> set (thresholds s). wasted r = 0" by blast
  then have "\<exists>r \<in> set (thresholds s). sweet_spot s = threshold r \<and> wasted r = 0
            \<and> (\<forall>q \<in> set (thresholds s). threshold q < threshold r \<longrightarrow> wasted q \<noteq> 0)"
    using sweet_spot_least_zero_waste [OF s] by simp
  with s t w show "\<exists>s. analyze_sizes [] example_log = Some s
      \<and> map threshold (thresholds s) = [256, 512, 768, 1024, 1536]
      \<and> map wasted (thresholds s) = [4, 0, 0, 0, 0]
      \<and> (\<exists>r \<in> set (thresholds s). sweet_spot s = threshold r \<and> wasted r = 0
            \<and> (\<forall>q \<in> set (thresholds s). threshold q < threshold r \<longrightarrow> wasted q \<noteq> 0))"
    by (intro exI [of _ s] conjI)
next
  obtain s where s: "analyze_sizes [] wasteful_log = Some s"
    and rs: "map (\<lambda>r. (threshold r, wasted r)) (thresholds s) = [(256, 6), (512, 6), (768, 6)]"
    by (rule wasteful_run)
  have w: "map wasted (thresholds s) = [6, 6, 6]"
    using rs by auto
  have "wasted r \<noteq> 0" if "r \<in> set (thresholds s)" for r
  proof -
    have "wasted r \<in> set (map wasted (thresholds s))" using that by simp
    then show ?thesis unfolding w by auto
  qed
  then have "\<not> (\<exists>r \<in> set (thresholds s). wasted r = 0)" by blast
  then have "sweet_spot s = 0"
    using sweet_spot_least_zero_waste [OF s] by simp
  with s w show "\<exists>s. analyze_sizes [] wasteful_log = Some s
      \<and> map wasted (thresholds s) = [6, 6, 6] \<and> sweet_spot s = 0"
    by (intro exI [of _ s] conjI)
qed




subsection \<open>Daily usage\<close>

text \<open>
  The grouping loop stops with the exception at an entry whose timestamp does not parse.
\<close>

lemma group_by_date_raises:
  assumes "m \<in> set msgs" and "get (timestamp m) [] \<noteq> []"
    and "iso_date (take 19 (get (timestamp m) [])) = None"
  shows "group_by_date iso_date msgs acc = Inl ValueError"
  using assms
proof (induction msgs arbitrary: acc)
  case Nil
  then show ?case by simp
next
  case (Cons x msgs)
  show ?case
  proof (cases "x = m")
    case True
    with Cons.prems show ?thesis by (simp add: Let_def)
  next
    case False
    with Cons.prems have "m \<in> set msgs" by simp
    then have "\<And>acc. group_by_date iso_date msgs acc = Inl ValueError"
      using Cons.IH Cons.prems by blast
    then show ?thesis by (simp add: Let_def split: option.splits)
  qed
qed

text \<open>
  The days of a log, entry by entry.
\<close>

lemma dated_Cons:
  "dated (x # msgs) =
     (if is_message x \<and> get (timestamp x) [] \<noteq> [] then x # dated msgs else dated msgs)"
  by (simp add: dated_def)

lemma days_skip:
  "\<not> (is_message x \<and> get (timestamp x) [] \<noteq> []) \<Longrightarrow> days iso_date (x # msgs) = days iso_date msgs"
  by (auto simp: days_def dated_Cons)

lemma day_total_skip:
  "\<not> (is_message x \<and> get (timestamp x) [] \<noteq> []) \<Longrightarrow>
     day_total iso_date (x # msgs) d = day_total iso_date msgs d"
  by (auto simp: day_total_def dated_Cons)

lemma days_add:
  assumes "is_message x" "get (timestamp x) [] \<noteq> []" "date_of iso_date x = Some dx"
  shows "days iso_date (x # msgs) = insert dx (days iso_date msgs)"
  using assms by (auto simp: days_def dated_Cons)

lemma day_total_add:
  assumes "is_message x" "get (timestamp x) [] \<noteq> []" "date_of iso_date x = Some dx"
  shows "day_total iso_date (x # msgs) d =
           (if d = dx then get (original_tokens x) 0 else 0) + day_total iso_date msgs d"
  using assms by (auto simp: day_total_def dated_Cons)

lemma get_update:
  "get (map_of (AList.update k v al) d) 0 = (if d = k then v else get (map_of al d) (0::int))"
  by (simp add: update_conv' get_def)

lemma dated_messages: "dated (filter is_message es) = dated es"
  by (simp add: dated_def)

lemma days_messages: "days iso_date (filter is_message es) = days iso_date es"
  by (simp add: days_def dated_messages)

lemma day_total_messages: "day_total iso_date (filter is_message es) = day_total iso_date es"
  by (rule ext) (simp add: day_total_def dated_messages)

lemma finite_days: "finite (days iso_date es)"
proof -
  have "days iso_date es \<subseteq> (\<lambda>m. the (date_of iso_date m)) ` set (dated es)"
  proof
    fix d assume "d \<in> days iso_date es"
    then obtain m where m: "m \<in> set (dated es)" and "date_of iso_date m = Some d"
      by (auto simp: days_def)
    then have "d = the (date_of iso_date m)" by simp
    with m show "d \<in> (\<lambda>m. the (date_of iso_date m)) ` set (dated es)" by blast
  qed
  then show ?thesis by (rule finite_subset) simp
qed

text \<open>
  When every timestamp parses, the loop returns a dictionary with one key for each date of
  the log, holding the date's sum.
\<close>

lemma group_by_date_returns:
  assumes "\<forall>m \<in> set msgs. is_message m"
    and "\<forall>m \<in> set (dated msgs). date_of iso_date m \<noteq> None"
    and "distinct (map fst acc)"
  shows "\<exists>daily. group_by_date iso_date msgs acc = Inr daily \<and> distinct (map fst daily)
           \<and> fst ` set daily = fst ` set acc \<union> days iso_date msgs
           \<and> (\<forall>d. get (map_of daily d) 0 = get (map_of acc d) 0 + day_total iso_date msgs d)"
  using assms
proof (induction msgs arbitrary: acc)
  case Nil
  have "days iso_date [] = {}" by (simp add: days_def dated_def)
  moreover have "day_total iso_date [] d = 0" for d by (simp add: day_total_def dated_def)
  ultimately show ?case using Nil.prems(3) by simp
next
  case (Cons x msgs)
  have msg: "is_message x" and rest_msgs: "\<forall>m \<in> set msgs. is_message m"
    using Cons.prems(1) by simp_all
  have rest_parse: "\<forall>m \<in> set (dated msgs). date_of iso_date m \<noteq> None"
    using Cons.prems(2) by (simp add: dated_Cons split: if_splits)
  show ?case
  proof (cases "get (timestamp x) [] = []")
    case True
    then have skip: "\<not> (is_message x \<and> get (timestamp x) [] \<noteq> [])" by simp
    have step: "group_by_date iso_date (x # msgs) acc = group_by_date iso_date msgs acc"
      using True by (simp add: Let_def)
    show ?thesis
      unfolding step days_skip [OF skip] day_total_skip [OF skip]
      by (rule Cons.IH [OF rest_msgs rest_parse Cons.prems(3)])
  next
    case False
    then have "x \<in> set (dated (x # msgs))" using msg by (simp add: dated_Cons)
    then obtain dx where dx: "date_of iso_date x = Some dx"
      using Cons.prems(2) by blast
    let ?acc = "AList.update dx (get (map_of acc dx) 0 + get (original_tokens x) 0) acc"
    have step: "group_by_date iso_date (x # msgs) acc = group_by_date iso_date msgs ?acc"
      using False dx by (simp add: Let_def date_of_def)
    have dist: "distinct (map fst ?acc)"
      using Cons.prems(3) by (rule distinct_update)
    obtain daily where run: "group_by_date iso_date msgs ?acc = Inr daily"
      and d: "distinct (map fst daily)"
      and keys: "fst ` set daily = fst ` set ?acc \<union> days iso_date msgs"
      and look: "\<And>d. get (map_of daily d) 0 = get (map_of ?acc d) 0 + day_total iso_date msgs d"
      using Cons.IH [OF rest_msgs rest_parse dist] by blast
    have keys': "fst ` set daily = fst ` set acc \<union> days iso_date (x # msgs)"
      unfolding keys days_add [OF msg False dx] dom_update by auto
    have look': "get (map_of daily d) 0 = get (map_of acc d) 0 + day_total iso_date (x # msgs) d" for d
      unfolding look day_total_add [OF msg False dx] get_update by simp
    show ?thesis
      unfolding step using run d keys' look' by blast
  qed
qed

lemma active_values_mset:
  assumes dist: "distinct (map fst daily)"
    and keys: "fst ` set daily = D"
    and look: "\<And>d. get (map_of daily d) 0 = f d"
  shows "mset (filter (\<lambda>tokens. 0 < tokens) (map snd daily))
         = image_mset f (mset_set {d \<in> D. 0 < f d})"
proof -
  have val: "snd kv = f (fst kv)" if "kv \<in> set daily" for kv
  proof -
    have "map_of daily (fst kv) = Some (snd kv)"
      using dist that by (cases kv) simp
    then show ?thesis using look [of "fst kv"] by (simp add: get_def)
  qed
  have "map snd daily = map f (map fst daily)"
    using val by simp
  then have "mset (filter (\<lambda>tokens. 0 < tokens) (map snd daily))
      = filter_mset (\<lambda>tokens. 0 < tokens) (image_mset f (mset (map fst daily)))"
    by (simp only: mset_filter mset_map)
  also have "mset (map fst daily) = mset_set D"
    using mset_set_set [OF dist] keys by simp
  also have "filter_mset (\<lambda>tokens. 0 < tokens) (image_mset f (mset_set D))
      = image_mset f (filter_mset (\<lambda>d. 0 < f d) (mset_set D))"
    by (rule filter_mset_image_mset)
  also have "filter_mset (\<lambda>d. 0 < f d) (mset_set D) = mset_set {d \<in> D. 0 < f d}"
  proof (rule filter_mset_mset_set)
    show "finite D" using keys by auto
  qed
  finally show ?thesis .
qed

text \<open>
  The statistics of \<open>daily_stats\<close> are functions of the multiset of its argument.
\<close>

lemma py_min_Min: "xs \<noteq> [] \<Longrightarrow> py_min xs = Min (set xs)"
proof (cases xs)
  case Nil
  moreover assume "xs \<noteq> []"
  ultimately show ?thesis by simp
next
  case (Cons a list)
  then show ?thesis
    unfolding py_min_def by (simp only: list.sel Min.set_eq_fold)
qed

lemma py_max_Max: "xs \<noteq> [] \<Longrightarrow> py_max xs = Max (set xs)"
proof (cases xs)
  case Nil
  moreover assume "xs \<noteq> []"
  ultimately show ?thesis by simp
next
  case (Cons a list)
  then show ?thesis
    unfolding py_max_def by (simp only: list.sel Max.set_eq_fold)
qed

lemma median_sort: "median (sort xs) = median xs"
proof -
  have "sort (sort xs) = sort xs"
    by (rule sorted_sort_id) (rule sorted_sort)
  then show ?thesis by (simp add: median_def)
qed

lemma sum_list_of_int: "sum_list (map of_int xs) = (of_int (sum_list xs) :: rat)"
  by (induction xs) simp_all

lemma daily_stats_fields:
  assumes "xs \<noteq> []"
  shows "daily_values (daily_stats xs) = sorted_list_of_multiset (mset xs)"
    and "active_days (daily_stats xs) = int (size (mset xs))"
    and "active_days (daily_stats xs) = int (length (daily_values (daily_stats xs)))"
    and "min_tokens_per_day (daily_stats xs) = Min (set_mset (mset xs))"
    and "max_tokens_per_day (daily_stats xs) = Max (set_mset (mset xs))"
    and "avg_tokens_per_day (daily_stats xs) = of_int (sum_mset (mset xs)) / of_nat (size (mset xs))"
    and "median_tokens_per_day (daily_stats xs) = median (sorted_list_of_multiset (mset xs))"
  using assms
  by (simp_all add: daily_stats_def py_min_Min py_max_Max
      median_sort mean_def sum_list_of_int sum_mset_sum_list)

lemma analyze_daily_returns:
  assumes "\<forall>m \<in> set (dated es). date_of iso_date m \<noteq> None"
  obtains active_values where "mset active_values = active_totals iso_date es"
    and "analyze_daily iso_date es =
           Inr (if active_values = [] then None else Some (daily_stats active_values))"
proof (cases "filter is_message es = []")
  case True
  then have "dated es = []"
    by (simp add: dated_def filter_empty_conv)
  then have "active_totals iso_date es = {#}"
    by (simp add: active_totals_def days_def)
  moreover have "analyze_daily iso_date es = Inr None"
    using True by (simp add: analyze_daily_def)
  ultimately show thesis using that [of "[]"] by simp
next
  case False
  let ?msgs = "filter is_message es"
  have "\<forall>m \<in> set ?msgs. is_message m" by simp
  moreover have "\<forall>m \<in> set (dated ?msgs). date_of iso_date m \<noteq> None"
    using assms by (simp add: dated_messages)
  moreover have "distinct (map fst ([] :: (string \<times> int) list))" by simp
  ultimately obtain daily where run: "group_by_date iso_date ?msgs [] = Inr daily"
    and dist: "distinct (map fst daily)"
    and keys: "fst ` set daily = fst ` set ([] :: (string \<times> int) list) \<union> days iso_date ?msgs"
    and look: "\<And>d. get (map_of daily d) 0 = get (map_of [] d) 0 + day_total iso_date ?msgs d"
    using group_by_date_returns [of ?msgs iso_date "[]"] by blast
  have keys': "fst ` set daily = days iso_date es"
    using keys by (simp add: days_messages)
  have look': "get (map_of daily d) 0 = day_total iso_date es d" for d
    using look [of d] by (simp add: day_total_messages get_def)
  let ?av = "filter (\<lambda>tokens. 0 < tokens) (map snd daily)"
  have "mset ?av = active_totals iso_date es"
    unfolding active_totals_def by (rule active_values_mset [OF dist keys' look'])
  moreover have "analyze_daily iso_date es = Inr (if ?av = [] then None else Some (daily_stats ?av))"
    using False run by (simp add: analyze_daily_def Let_def)
  ultimately show thesis by (rule that)
qed

text \<open>
  The sample request log, evaluated with the date parser.
\<close>

lemmas parser_defs = strict_iso_date_def valid_date_def valid_time_def number_def days_in_month_def

lemmas request_log_defs = request_log_def request_def health_check_def is_message_def

lemma request_log_daily:
  "analyze_daily strict_iso_date request_log =
     Inr (Some \<lparr>active_days = 2, avg_tokens_per_day = 300, min_tokens_per_day = 200,
                max_tokens_per_day = 400, median_tokens_per_day = 300, daily_values = [200, 400],
                total_saved_tokens' = 0, total_money_saved' = 0, total_shadows' = 0,
                total_expands' = 0, models' = []\<rparr>)"
  by (simp add: analyze_daily_def request_log_defs parser_defs Let_def get_def daily_stats_def
      mean_def py_min_def py_max_def median_def)

text \<open>
  C7. When every timestamp that \<open>analyze_daily\<close> reads parses, the function returns; it returns
  the absent result when no date has a sum above 0; otherwise it returns statistics in which
  \<open>daily_values\<close> is the sorted list of the sums of exactly the dates with a sum above 0,
  \<open>active_days\<close> is its length, and minimum, maximum, mean and median are those of these sums.
  A date whose sum is 0 takes part in none of them.
\<close>

theorem analyze_daily_active_days:
  assumes "\<forall>m \<in> set (dated es). date_of iso_date m \<noteq> None"
  shows "(active_totals iso_date es = {#} \<longrightarrow> analyze_daily iso_date es = Inr None)
       \<and> (active_totals iso_date es \<noteq> {#} \<longrightarrow>
            (\<exists>s. analyze_daily iso_date es = Inr (Some s)
               \<and> daily_values s = sorted_list_of_multiset (active_totals iso_date es)
               \<and> (\<forall>v \<in> set (daily_values s). 0 < v)
               \<and> active_days s = int (length (daily_values s))
               \<and> active_days s = int (size (active_totals iso_date es))
               \<and> min_tokens_per_day s = Min (set_mset (active_totals iso_date es))
               \<and> max_tokens_per_day s = Max (set_mset (active_totals iso_date es))
               \<and> avg_tokens_per_day s
                   = of_int (sum_mset (active_totals iso_date es)) / of_nat (size (active_totals iso_date es))
               \<and> median_tokens_per_day s = median (sorted_list_of_multiset (active_totals iso_date es))))"
proof -
  obtain av where av: "mset av = active_totals iso_date es"
    and run: "analyze_daily iso_date es = Inr (if av = [] then None else Some (daily_stats av))"
    using assms by (rule analyze_daily_returns)
  have empty: "av = [] \<longleftrightarrow> active_totals iso_date es = {#}"
    using av by (metis mset_zero_iff)
  have pos: "\<forall>v \<in># active_totals iso_date es. 0 < v"
    using finite_days [of iso_date es] by (simp add: active_totals_def)
  show ?thesis
  proof (intro conjI impI)
    assume "active_totals iso_date es = {#}"
    with run empty show "analyze_daily iso_date es = Inr None" by simp
  next
    assume "active_totals iso_date es \<noteq> {#}"
    with empty have ne: "av \<noteq> []" by simp
    have "analyze_daily iso_date es = Inr (Some (daily_stats av))"
      using run ne by simp
    moreover have "\<forall>v \<in> set (daily_values (daily_stats av)). 0 < v"
      using pos unfolding daily_stats_fields(1) [OF ne] av by simp
    ultimately show "\<exists>s. analyze_daily iso_date es = Inr (Some s)
               \<and> daily_values s = sorted_list_of_multiset (active_totals iso_date es)
               \<and> (\<forall>v \<in> set (daily_values s). 0 < v)
               \<and> active_days s = int (length (daily_values s))
               \<and> active_days s = int (size (active_totals iso_date es))
               \<and> min_tokens_per_day s = Min (set_mset (active_totals iso_date es))
               \<and> max_tokens_per_day s = Max (set_mset (active_totals iso_date es))
               \<and> avg_tokens_per_day s
                   = of_int (sum_mset (active_totals iso_date es)) / of_nat (size (active_totals iso_date es))
               \<and> median_tokens_per_day s = median (sorted_list_of_multiset (active_totals iso_date es))"
      using daily_stats_fields [OF ne] unfolding av
      by (intro exI [of _ "daily_stats av"] conjI)
  qed
qed

theorem analyze_daily_active_days_witness:
  "analyze_daily strict_iso_date request_log =
     Inr (Some \<lparr>active_days = 2, avg_tokens_per_day = 300, min_tokens_per_day = 200,
                max_tokens_per_day = 400, median_tokens_per_day = 300, daily_values = [200, 400],
                total_saved_tokens' = 0, total_money_saved' = 0, total_shadows' = 0,
                total_expands' = 0, models' = []\<rparr>)
   \<and> sorted_list_of_multiset (active_totals strict_iso_date request_log) = [200, 400]
   \<and> size (active_totals strict_iso_date request_log) = 2
   \<and> Min (set_mset (active_totals strict_iso_date request_log)) = 200
   \<and> Max (set_mset (active_totals strict_iso_date request_log)) = 400"
proof -
  have parse: "\<forall>m \<in> set (dated request_log). date_of strict_iso_date m \<noteq> None"
    by (simp add: dated_def date_of_def request_log_defs parser_defs get_def)
  note inst = analyze_daily_active_days [OF parse]
  have "active_totals strict_iso_date request_log \<noteq> {#}"
    using inst request_log_daily by auto
  then obtain s where s: "analyze_daily strict_iso_date request_log = Inr (Some s)"
    and v: "daily_values s = sorted_list_of_multiset (active_totals strict_iso_date request_log)"
    and n: "active_days s = int (size (active_totals strict_iso_date request_log))"
    and lo: "min_tokens_per_day s = Min (set_mset (active_totals strict_iso_date request_log))"
    and hi: "max_tokens_per_day s = Max (set_mset (active_totals strict_iso_date request_log))"
    using inst by blast
  have "s = \<lparr>active_days = 2, avg_tokens_per_day = 300, min_tokens_per_day = 200,
                max_tokens_per_day = 400, median_tokens_per_day = 300, daily_values = [200, 400],
                total_saved_tokens' = 0, total_money_saved' = 0, total_shadows' = 0,
                total_expands' = 0, models' = []\<rparr>"
    using s request_log_daily by simp
  with v n lo hi request_log_daily show ?thesis by simp
qed

text \<open>
  C9. \<open>analyze_daily\<close> is not total: an entry with path \<^verbatim>\<open>/v1/messages\<close> and a non-empty
  timestamp whose first 19 characters \<^verbatim>\<open>fromisoformat\<close> rejects makes the function raise
  \<^verbatim>\<open>ValueError\<close>, wherever the entry stands in the log.
\<close>

theorem analyze_daily_raises:
  assumes "m \<in> set es" and "path m = Some ''/v1/messages''"
    and "get (timestamp m) [] \<noteq> []"
    and "iso_date (take 19 (get (timestamp m) [])) = None"
  shows "analyze_daily iso_date es = Inl ValueError"
proof -
  have mem: "m \<in> set (filter is_message es)"
    using assms(1,2) by (simp add: is_message_def)
  have "filter is_message es \<noteq> []"
    using assms(1,2) by (auto simp: filter_empty_conv is_message_def)
  moreover have "group_by_date iso_date (filter is_message es) [] = Inl ValueError"
    using mem assms(3,4) by (rule group_by_date_raises)
  ultimately show ?thesis by (simp add: analyze_daily_def)
qed

theorem analyze_daily_raises_witness:
  "strict_iso_date (take 19 ''yesterday'') = None
   \<and> analyze_daily strict_iso_date broken_log = Inl ValueError"
proof -
  let ?m = "request ''claude-opus-4-1'' True 200 100 ''yesterday''"
  have bad: "strict_iso_date (take 19 ''yesterday'') = None"
    by (simp add: parser_defs)
  have "?m \<in> set broken_log" by (simp add: broken_log_def)
  moreover have "path ?m = Some ''/v1/messages''" by (simp add: request_def)
  moreover have "get (timestamp ?m) [] \<noteq> []" by (simp add: request_def get_def)
  moreover have "strict_iso_date (take 19 (get (timestamp ?m) [])) = None"
    using bad by (simp add: request_def get_def)
  ultimately have "analyze_daily strict_iso_date broken_log = Inl ValueError"
    by (rule analyze_daily_raises)
  with bad show ?thesis by simp
qed

end
